theory Spec2Isabelle
  imports Main "HOL-Library.Log_Nat"
begin

section \<open>Nodes for calls to the range builtin (nuitka/nodes/BuiltinRangeNode.py)\<close>

text \<open>
  The module defines four node classes for \<^verbatim>\<open>range()\<close>, \<^verbatim>\<open>range(low)\<close>,
  \<^verbatim>\<open>range(low, high)\<close> and \<^verbatim>\<open>range(low, high, step)\<close>. The three classes with
  operands share the base class \<^verbatim>\<open>CPythonExpressionBuiltinRangeBase\<close>; the class
  without operands has another base. Python integers are unbounded and are modelled by
  \<^typ>\<open>int\<close>; \<^verbatim>\<open>None\<close> is \<^term>\<open>None\<close>; an exception that leaves a method is the
  \<^term>\<open>Inl\<close> branch of the result.
\<close>

datatype error = TypeError | OverflowError | AssertionError | ZeroDivisionError

subsection \<open>Python floats\<close>

text \<open>
  \<^verbatim>\<open>getIterationLength\<close> of the three-operand node computes
  \<^verbatim>\<open>math.ceil( float( high - low ) / step )\<close>. A Python float is an IEEE 754 binary64
  number: 53 significant bits, exponents from -1022 to 1023, subnormal numbers spaced
  \<open>2^-1074\<close> apart, results rounded to the nearest representable number with ties going
  to the even significand. A finite float is modelled by the rational number it denotes
  (the sign of a zero is not kept: the code only compares the value with 0 and converts
  it to an integer). Infinities and NaN never arise here, since a conversion that would
  overflow raises and the divisor of the one division is an integer.
\<close>

definition pow2 :: "int \<Rightarrow> rat" where
  "pow2 e = (if 0 \<le> e then 2 ^ nat e else 1 / 2 ^ nat (- e))"

definition round_half_even :: "rat \<Rightarrow> int" where
  "round_half_even x =
     (let f = \<lfloor>x\<rfloor>; d = x - of_int f
      in if d < 1 / 2 then f else if 1 / 2 < d then f + 1 else if even f then f else f + 1)"

text \<open>The binary exponent of a non-zero number: \<open>2^e \<le> |x| < 2^(e+1)\<close>.\<close>

definition exponent :: "rat \<Rightarrow> int" where
  "exponent x =
     (if 1 \<le> \<bar>x\<bar> then bitlen \<lfloor>\<bar>x\<bar>\<rfloor> - 1 else - bitlen (\<lceil>1 / \<bar>x\<bar>\<rceil> - 1))"

text \<open>
  Rounding to the binary64 grid with an unbounded exponent upwards; the unit in the last
  place is \<open>2^(e-52)\<close>, and \<open>2^-1074\<close> in the subnormal range.
\<close>

definition round_double :: "rat \<Rightarrow> rat" where
  "round_double x =
     (if x = 0 then 0
      else let u = pow2 (max (exponent x) (- 1022) - 52)
           in of_int (round_half_even (x / u)) * u)"

text \<open>\<^verbatim>\<open>float( n )\<close>: raises OverflowError when the rounded value is beyond the largest float.\<close>

definition float_of_int :: "int \<Rightarrow> error + rat" where
  "float_of_int n =
     (let d = round_double (of_int n)
      in if 2 ^ 1024 \<le> \<bar>d\<bar> then Inl OverflowError else Inr d)"

text \<open>
  \<^verbatim>\<open>a / n\<close> for a float \<open>a\<close> and an integer \<open>n\<close>: the integer is converted first, then
  the floats are divided. The quotient is no larger than \<open>a\<close> in magnitude, as a non-zero
  integer converts to a float of magnitude at least 1.
\<close>

definition float_div :: "rat \<Rightarrow> int \<Rightarrow> error + rat" where
  "float_div a n =
     (case float_of_int n of
        Inl e \<Rightarrow> Inl e
      | Inr b \<Rightarrow> if b = 0 then Inl ZeroDivisionError else Inr (round_double (a / b)))"

text \<open>\<^verbatim>\<open>math.ceil\<close>, \<^verbatim>\<open>round\<close> (half away from zero) and \<^verbatim>\<open>int\<close> (truncation) on a float.\<close>

definition math_ceil :: "rat \<Rightarrow> rat" where
  "math_ceil x = of_int \<lceil>x\<rceil>"

definition py_round :: "rat \<Rightarrow> rat" where
  "py_round x = (if 0 \<le> x then of_int \<lfloor>x + 1 / 2\<rfloor> else of_int \<lceil>x - 1 / 2\<rceil>)"

definition py_int :: "rat \<Rightarrow> int" where
  "py_int x = (if 0 \<le> x then \<lfloor>x\<rfloor> else \<lceil>x\<rceil>)"

subsection \<open>Operands and nodes\<close>

text \<open>
  An operand is an arbitrary expression node of the compiler. The range nodes use three
  of its methods: \<^verbatim>\<open>getIntegerValue( constraint_collection )\<close>,
  \<^verbatim>\<open>mayHaveSideEffects( constraint_collection )\<close> and \<^verbatim>\<open>isCompileTimeConstant()\<close>.
  An operand is modelled by the answers these methods give; \<open>'c\<close> is the type of the
  constraint collection.
\<close>

record 'c expression =
  getIntegerValue :: "'c \<Rightarrow> int option"
  expression_mayHaveSideEffects :: "'c \<Rightarrow> bool"
  isCompileTimeConstant :: bool

text \<open>The subclasses of \<^verbatim>\<open>CPythonExpressionBuiltinRangeBase\<close>, with their child getters.\<close>

datatype 'c range_node =
    BuiltinRange1 (getLow: "'c expression")
  | BuiltinRange2 (getLow: "'c expression") (getHigh: "'c expression")
  | BuiltinRange3 (getLow: "'c expression") (getHigh: "'c expression")
      (getStep: "'c expression")

text \<open>\<^verbatim>\<open>getVisitableNodes\<close>: the children in the order of \<^verbatim>\<open>named_children\<close>.\<close>

fun getVisitableNodes :: "'c range_node \<Rightarrow> 'c expression list" where
  "getVisitableNodes (BuiltinRange1 low) = [low]"
| "getVisitableNodes (BuiltinRange2 low high) = [low, high]"
| "getVisitableNodes (BuiltinRange3 low high step) = [low, high, step]"

text \<open>
  \<^verbatim>\<open>makeConstantReplacementNode( constant, node )\<close> builds a constant node for the place
  of \<open>node\<close>; it is kept as a constructor of its two arguments.
\<close>

datatype 'c constant_node =
  makeConstantReplacementNode int "'c range_node"

subsection \<open>Side effects\<close>

text \<open>\<^verbatim>\<open>CPythonExpressionBuiltinRange0.mayHaveSideEffects\<close>\<close>

definition mayHaveSideEffects0 :: "'c \<Rightarrow> bool" where
  "mayHaveSideEffects0 constraint_collection = False"

text \<open>
  \<^verbatim>\<open>CPythonExpressionBuiltinRangeBase.mayHaveSideEffects\<close>: the \<^verbatim>\<open>for\<close> loop over the
  children with its \<^verbatim>\<open>else\<close> branch.
\<close>

fun mayHaveSideEffects_loop :: "'c expression list \<Rightarrow> 'c \<Rightarrow> bool" where
  "mayHaveSideEffects_loop [] constraint_collection = False"
| "mayHaveSideEffects_loop (child # children) constraint_collection =
     (if expression_mayHaveSideEffects child constraint_collection then True
      else if getIntegerValue child constraint_collection = None then True
      else mayHaveSideEffects_loop children constraint_collection)"

definition mayHaveSideEffects :: "'c range_node \<Rightarrow> 'c \<Rightarrow> bool" where
  "mayHaveSideEffects self constraint_collection =
     mayHaveSideEffects_loop (getVisitableNodes self) constraint_collection"

subsection \<open>Iteration length\<close>

text \<open>The expression \<^verbatim>\<open>math.ceil( float( high - low ) / step )\<close>.\<close>

definition ceil_float_div :: "int \<Rightarrow> int \<Rightarrow> error + rat" where
  "ceil_float_div d step =
     (case float_of_int d of
        Inl e \<Rightarrow> Inl e
      | Inr f \<Rightarrow>
          (case float_div f step of
             Inl e \<Rightarrow> Inl e
           | Inr q \<Rightarrow> Inr (math_ceil q)))"

text \<open>
  The tail of \<^verbatim>\<open>CPythonExpressionBuiltinRange3.getIterationLength\<close>, once the three
  integer values are known: first the \<^verbatim>\<open>if\<close> statement that assigns \<^verbatim>\<open>estimate\<close> (the
  step is not 0 there), then the rounding, the assertion and the conversion.
\<close>

definition range3_estimate :: "int \<Rightarrow> int \<Rightarrow> int \<Rightarrow> error + rat" where
  "range3_estimate low high step =
     (if low < high
      then (if step < 0 then Inr 0 else ceil_float_div (high - low) step)
      else (if step > 0 then Inr 0 else ceil_float_div (high - low) step))"

definition range3_length :: "int \<Rightarrow> int \<Rightarrow> int \<Rightarrow> error + int option" where
  "range3_length low high step =
     (if step = 0 then Inr None
      else
        (case range3_estimate low high step of
           Inl e \<Rightarrow> Inl e
         | Inr estimate \<Rightarrow>
             (let estimate = py_round estimate
              in if estimate < 0 then Inl AssertionError
                 else Inr (Some (py_int estimate)))))"

fun getIterationLength :: "'c range_node \<Rightarrow> 'c \<Rightarrow> error + int option" where
  "getIterationLength (BuiltinRange1 low) constraint_collection =
     (case getIntegerValue low constraint_collection of
        None \<Rightarrow> Inr None
      | Some low \<Rightarrow> Inr (Some (max 0 low)))"
| "getIterationLength (BuiltinRange2 low high) constraint_collection =
     (case getIntegerValue low constraint_collection of
        None \<Rightarrow> Inr None
      | Some low \<Rightarrow>
          (case getIntegerValue high constraint_collection of
             None \<Rightarrow> Inr None
           | Some high \<Rightarrow> Inr (Some (max 0 (high - low)))))"
| "getIterationLength (BuiltinRange3 low high step) constraint_collection =
     (case getIntegerValue low constraint_collection of
        None \<Rightarrow> Inr None
      | Some low \<Rightarrow>
          (case getIntegerValue high constraint_collection of
             None \<Rightarrow> Inr None
           | Some high \<Rightarrow>
               (case getIntegerValue step constraint_collection of
                  None \<Rightarrow> Inr None
                | Some step \<Rightarrow> range3_length low high step)))"

definition canPredictIterationValues :: "'c range_node \<Rightarrow> 'c \<Rightarrow> error + bool" where
  "canPredictIterationValues self constraint_collection =
     (case getIterationLength self constraint_collection of
        Inl e \<Rightarrow> Inl e
      | Inr len \<Rightarrow> Inr (len \<noteq> None))"

subsection \<open>Iteration values\<close>

text \<open>
  In the three-operand class the step is not tested for \<^verbatim>\<open>None\<close>: the product
  \<^verbatim>\<open>step * element_index\<close> then raises TypeError.
\<close>

fun getIterationValue ::
  "'c range_node \<Rightarrow> int \<Rightarrow> 'c \<Rightarrow> error + 'c constant_node option" where
  "getIterationValue (BuiltinRange1 low) element_index constraint_collection =
     (case getIterationLength (BuiltinRange1 low) constraint_collection of
        Inl e \<Rightarrow> Inl e
      | Inr None \<Rightarrow> Inr None
      | Inr (Some len) \<Rightarrow>
          if element_index > len then Inr None
          else Inr (Some (makeConstantReplacementNode element_index (BuiltinRange1 low))))"
| "getIterationValue (BuiltinRange2 low high) element_index constraint_collection =
     (case getIntegerValue low constraint_collection of
        None \<Rightarrow> Inr None
      | Some l \<Rightarrow>
          (case getIntegerValue high constraint_collection of
             None \<Rightarrow> Inr None
           | Some h \<Rightarrow>
               (let result = l + element_index
                in if result \<ge> h then Inr None
                   else Inr (Some (makeConstantReplacementNode result
                                     (BuiltinRange2 low high))))))"
| "getIterationValue (BuiltinRange3 low high step) element_index constraint_collection =
     (case getIntegerValue low constraint_collection of
        None \<Rightarrow> Inr None
      | Some l \<Rightarrow>
          (case getIntegerValue high constraint_collection of
             None \<Rightarrow> Inr None
           | Some h \<Rightarrow>
               (case getIntegerValue step constraint_collection of
                  None \<Rightarrow> Inl TypeError
                | Some s \<Rightarrow>
                    (let result = l + s * element_index
                     in if result \<ge> h then Inr None
                        else Inr (Some (makeConstantReplacementNode result
                                          (BuiltinRange3 low high step)))))))"

text \<open>
  \<^verbatim>\<open>isKnownToBeIterable( count )\<close> is the same in the three classes:
  \<^verbatim>\<open>count is None or count == self.getIterationLength()\<close>. The call on the right has no
  argument for the required parameter \<^verbatim>\<open>constraint_collection\<close> and raises TypeError
  when it is reached.
\<close>

definition isKnownToBeIterable :: "'c range_node \<Rightarrow> int option \<Rightarrow> error + bool" where
  "isKnownToBeIterable self count =
     (case count of None \<Rightarrow> Inr True | Some c \<Rightarrow> Inl TypeError)"

subsection \<open>Compile-time folding\<close>

text \<open>
  \<^verbatim>\<open>computeNode\<close> returns a triple: the node to go on with, a change tag and a change
  description; \<^verbatim>\<open>self, None, None\<close> stands for no change. The first component is the
  range node itself or a node that \<^verbatim>\<open>getComputationResult\<close> built, of a type \<open>'n\<close>.
\<close>

datatype ('c, 'n) node = RangeNode "'c range_node" | ReplacementNode 'n

type_synonym ('c, 'n) computation_result =
  "('c, 'n) node \<times> string option \<times> string option"

text \<open>
  What \<^verbatim>\<open>computeNode\<close> takes from other modules: the constant
  \<^verbatim>\<open>nuitka.Utils.python_version\<close>, the methods \<^verbatim>\<open>simulateCall\<close> and \<^verbatim>\<open>getName\<close> of
  \<^verbatim>\<open>BuiltinOptimization.builtin_range_spec\<close> and the helper \<^verbatim>\<open>getComputationResult\<close>.
  They are parameters of the model; \<open>'v\<close> is the type of what the delayed computation
  yields.
\<close>

record ('c, 'v, 'n) environment =
  python_version :: nat
  simulateCall :: "'c expression list \<Rightarrow> 'v"
  getName :: string
  getComputationResult ::
    "'c range_node \<Rightarrow> (unit \<Rightarrow> 'v) \<Rightarrow> string \<Rightarrow> ('c, 'n) computation_result"

text \<open>
  Modelled from the spec: \<^verbatim>\<open>builtin_range_spec.isCompileTimeComputable\<close> is defined in
  \<^verbatim>\<open>nuitka.transform.optimizations.BuiltinOptimization\<close>, outside this module. The spec
  has it gather every operand as a compile-time-computable value by a literal-constant
  check per operand, and fail when some operand fails that check.
\<close>

definition isCompileTimeComputable :: "'c expression list \<Rightarrow> bool" where
  "isCompileTimeComputable given_values = list_all isCompileTimeConstant given_values"

text \<open>
  \<^verbatim>\<open>computeBuiltinSpec\<close> of the two- and three-operand classes. Its assertion
  \<^verbatim>\<open>self.builtin_spec is not None\<close> holds, the class attribute being the spec object.
\<close>

definition computeBuiltinSpec ::
  "('c, 'v, 'n) environment \<Rightarrow> 'c range_node \<Rightarrow> 'c expression list
     \<Rightarrow> ('c, 'n) computation_result" where
  "computeBuiltinSpec env self given_values =
     (if \<not> isCompileTimeComputable given_values then (RangeNode self, None, None)
      else getComputationResult env self (\<lambda>_. simulateCall env given_values)
             (''Builtin call to '' @ getName env @ '' precomputed.''))"

fun computeNode ::
  "('c, 'v, 'n) environment \<Rightarrow> 'c range_node \<Rightarrow> 'c \<Rightarrow> ('c, 'n) computation_result" where
  "computeNode env (BuiltinRange1 low) constraint_collection =
     (if python_version env \<ge> 300 then (RangeNode (BuiltinRange1 low), None, None)
      else
        (let given_values = [low]
         in if \<not> isCompileTimeComputable given_values
            then (RangeNode (BuiltinRange1 low), None, None)
            else getComputationResult env (BuiltinRange1 low)
                   (\<lambda>_. simulateCall env given_values)
                   ''Builtin call to range precomputed.''))"
| "computeNode env (BuiltinRange2 low high) constraint_collection =
     (if python_version env \<ge> 300 then (RangeNode (BuiltinRange2 low high), None, None)
      else computeBuiltinSpec env (BuiltinRange2 low high) [low, high])"
| "computeNode env (BuiltinRange3 low high step) constraint_collection =
     (if python_version env \<ge> 300
      then (RangeNode (BuiltinRange3 low high step), None, None)
      else computeBuiltinSpec env (BuiltinRange3 low high step) [low, high, step])"

subsection \<open>Operands and an environment for concrete scenarios\<close>

text \<open>
  An operand with the statically known integer \<open>v\<close> (a constant), an operand about which
  nothing is known (a call, say), and an environment of a Python 2.7 compiler whose
  folding helper tags the node as a new constant.
\<close>

definition known_operand :: "int \<Rightarrow> 'c expression" where
  "known_operand v =
     \<lparr>getIntegerValue = (\<lambda>_. Some v), expression_mayHaveSideEffects = (\<lambda>_. False),
      isCompileTimeConstant = True\<rparr>"

definition unknown_operand :: "'c expression" where
  "unknown_operand =
     \<lparr>getIntegerValue = (\<lambda>_. None), expression_mayHaveSideEffects = (\<lambda>_. True),
      isCompileTimeConstant = False\<rparr>"

definition python27 :: "('c, unit, unit) environment" where
  "python27 =
     \<lparr>python_version = 270, simulateCall = (\<lambda>_. ()), getName = ''range'',
      getComputationResult =
        (\<lambda>node computation description.
           (ReplacementNode (computation ()), Some ''new_constant'', Some description))\<rparr>"

section \<open>Properties\<close>

subsection \<open>Signs in the float model\<close>

lemma pow2_pos: "0 < pow2 e"
  by (simp add: pow2_def)

lemma round_half_even_nonneg: "0 \<le> x \<Longrightarrow> 0 \<le> round_half_even x"
  by (simp add: round_half_even_def Let_def)

lemma round_half_even_nonpos:
  assumes "x \<le> 0"
  shows "round_half_even x \<le> 0"
proof -
  define f where "f = \<lfloor>x\<rfloor>"
  define d where "d = x - of_int f"
  have unfold: "round_half_even x =
      (if d < 1 / 2 then f else if 1 / 2 < d then f + 1 else if even f then f else f + 1)"
    by (simp add: round_half_even_def Let_def f_def d_def)
  have fx: "of_int f \<le> x" unfolding f_def by (rule of_int_floor_le)
  with assms have "rat_of_int f \<le> 0" by linarith
  then have f0: "f \<le> 0" by simp
  show ?thesis
  proof (cases "d = 0")
    case True
    with f0 show ?thesis by (simp add: unfold)
  next
    case False
    then have "rat_of_int f < x" using fx by (simp add: d_def)
    with assms have "rat_of_int f < 0" by linarith
    then have "f < 0" by simp
    then have "f + 1 \<le> 0" by linarith
    with f0 show ?thesis by (simp add: unfold)
  qed
qed

lemma round_double_nonneg: "0 \<le> x \<Longrightarrow> 0 \<le> round_double x"
  using pow2_pos
  by (simp add: round_double_def Let_def round_half_even_nonneg zero_le_divide_iff less_imp_le)

lemma round_double_nonpos: "x \<le> 0 \<Longrightarrow> round_double x \<le> 0"
proof -
  assume x: "x \<le> 0"
  define u where "u = pow2 (max (exponent x) (- 1022) - 52)"
  have u: "0 < u" unfolding u_def by (rule pow2_pos)
  have "x / u \<le> 0" using x u by (simp add: divide_le_0_iff)
  then have "round_half_even (x / u) \<le> 0" by (rule round_half_even_nonpos)
  then have "rat_of_int (round_half_even (x / u)) * u \<le> 0"
    using u by (simp add: mult_le_0_iff)
  then show ?thesis by (simp add: round_double_def Let_def u_def)
qed

lemma float_of_int_sign:
  assumes "float_of_int n = Inr f"
  shows "(0 \<le> n \<longrightarrow> 0 \<le> f) \<and> (n \<le> 0 \<longrightarrow> f \<le> 0)"
proof -
  have "f = round_double (of_int n)"
    using assms by (simp add: float_of_int_def Let_def split: if_splits)
  then show ?thesis
    using round_double_nonneg [of "of_int n"] round_double_nonpos [of "of_int n"] by simp
qed

lemma ceil_float_div_nonneg:
  assumes "ceil_float_div d s = Inr q" and "0 \<le> d \<and> 0 < s \<or> d \<le> 0 \<and> s < 0"
  shows "0 \<le> q"
proof -
  from assms(1) obtain f b where f: "float_of_int d = Inr f" and b: "float_of_int s = Inr b"
    and q: "q = math_ceil (round_double (f / b))"
    by (auto simp: ceil_float_div_def float_div_def split: sum.splits if_splits)
  have "0 \<le> f / b"
    using assms(2) float_of_int_sign [OF f] float_of_int_sign [OF b]
    by (auto simp: zero_le_divide_iff)
  then have "0 \<le> round_double (f / b)" by (rule round_double_nonneg)
  then show ?thesis by (simp add: q math_ceil_def)
qed

lemma py_round_nonneg: "0 \<le> x \<Longrightarrow> 0 \<le> py_round x"
  by (simp add: py_round_def)

lemma py_round_of_int: "py_round (of_int k) = of_int k"
proof -
  have h: "\<lfloor>1 / 2 :: rat\<rfloor> = 0" by (rule floor_unique) simp_all
  have "\<lfloor>rat_of_int k + 1 / 2\<rfloor> = k"
    using floor_add_int [of "1 / 2 :: rat" k] h by (simp add: add.commute)
  moreover have "\<lceil>rat_of_int k - 1 / 2\<rceil> = k"
    by (rule ceiling_unique) simp_all
  ultimately show ?thesis by (simp add: py_round_def)
qed

lemma range3_estimate_nonneg:
  assumes "range3_estimate low high step = Inr estimate" and "step \<noteq> 0"
  shows "0 \<le> estimate"
  using assms ceil_float_div_nonneg [of "high - low" step estimate]
  by (auto simp: range3_estimate_def split: if_splits)

lemma range3_length_no_assertion: "range3_length low high step \<noteq> Inl AssertionError"
proof (cases "step = 0")
  case True
  then show ?thesis by (simp add: range3_length_def)
next
  case False
  show ?thesis
  proof (cases "range3_estimate low high step")
    case (Inl e)
    have "e \<noteq> AssertionError"
      using Inl
      by (auto simp: range3_estimate_def ceil_float_div_def float_div_def float_of_int_def
          Let_def split: if_splits sum.splits)
    with Inl False show ?thesis by (simp add: range3_length_def)
  next
    case (Inr estimate)
    then have "0 \<le> py_round estimate"
      using False by (intro py_round_nonneg range3_estimate_nonneg)
    with Inr False show ?thesis by (simp add: range3_length_def Let_def not_less)
  qed
qed

lemma range3_length_nonneg: "range3_length low high step = Inr (Some n) \<Longrightarrow> 0 \<le> n"
  by (auto simp: range3_length_def Let_def py_int_def not_less split: sum.splits if_splits)

lemma range3_length_mismatch:
  assumes "low < high \<and> step < 0 \<or> low \<ge> high \<and> step > 0"
  shows "range3_length low high step = Inr (Some 0)"
proof -
  have "range3_estimate low high step = Inr 0"
    using assms by (auto simp: range3_estimate_def)
  moreover have "py_round 0 = 0" using py_round_of_int [of 0] by simp
  moreover have "step \<noteq> 0" using assms by auto
  ultimately show ?thesis by (simp add: range3_length_def py_int_def)
qed

subsection \<open>Accuracy of the float model\<close>

text \<open>
  The exponent brackets its argument, rounding moves a number by at most half a unit in
  the last place, and integers below \<open>2^53\<close> in magnitude convert without error. For
  operands below \<open>2^53\<close> the float quotient has the ceiling of the exact quotient, so
  that the length of the three-operand node is exact there.
\<close>

lemma pow2_nat: "pow2 (int k) = 2 ^ k"
  by (simp add: pow2_def)

lemma pow2_neg_nat: "pow2 (- int k) = 1 / 2 ^ k"
proof (cases "k = 0")
  case True
  then show ?thesis by (simp add: pow2_def)
next
  case False
  then have "\<not> 0 \<le> - int k" by simp
  moreover have "nat (- (- int k)) = k" by simp
  ultimately show ?thesis unfolding pow2_def by presburger
qed

lemma round_half_even_of_int: "round_half_even (of_int k) = k"
  by (simp add: round_half_even_def)

lemma round_half_even_close:
  "of_int (round_half_even x) \<le> x + 1 / 2 \<and> x - 1 / 2 \<le> of_int (round_half_even x)"
proof -
  define f where "f = \<lfloor>x\<rfloor>"
  define d where "d = x - of_int f"
  have unfold: "round_half_even x =
      (if d < 1 / 2 then f else if 1 / 2 < d then f + 1 else if even f then f else f + 1)"
    by (simp add: round_half_even_def Let_def f_def d_def)
  have "0 \<le> d" "d < 1"
    unfolding d_def f_def by linarith+
  moreover have "x = of_int f + d" by (simp add: d_def)
  ultimately have "rat_of_int f \<le> x" "x < rat_of_int f + 1"
    "d < 1 / 2 \<longleftrightarrow> x < rat_of_int f + 1 / 2" "1 / 2 < d \<longleftrightarrow> rat_of_int f + 1 / 2 < x"
    by auto
  then show ?thesis
    unfolding unfold by (auto simp: not_less)
qed

lemma exponent_bounds:
  assumes "x \<noteq> 0"
  shows "pow2 (exponent x) \<le> \<bar>x\<bar> \<and> \<bar>x\<bar> < pow2 (exponent x + 1)"
proof (cases "1 \<le> \<bar>x\<bar>")
  case True
  define n where "n = \<lfloor>\<bar>x\<bar>\<rfloor>"
  have n1: "1 \<le> n" using True by (simp add: n_def le_floor_iff)
  then have n0: "0 < n" by simp
  have b1: "1 \<le> bitlen n" using n0 by (simp add: bitlen_alt_def)
  define k where "k = nat (bitlen n - 1)"
  have k: "bitlen n - 1 = int k" "nat (bitlen n) = Suc k" using b1 by (simp_all add: k_def)
  from bitlen_bounds [OF n0] have lo: "2 ^ k \<le> n" and hi: "n < 2 ^ Suc k"
    unfolding k_def [symmetric] k(2) by blast+
  have e: "exponent x = int k" using True by (simp add: exponent_def n_def [symmetric] k(1))
  have "rat_of_int (2 ^ k) \<le> of_int n" using lo by (simp only: of_int_le_iff)
  then have "(2::rat) ^ k \<le> of_int n" by simp
  also have "\<dots> \<le> \<bar>x\<bar>" unfolding n_def by (rule of_int_floor_le)
  finally have l: "pow2 (exponent x) \<le> \<bar>x\<bar>" by (simp add: e pow2_nat)
  have "n + 1 \<le> 2 ^ Suc k" using hi by simp
  then have "rat_of_int (n + 1) \<le> of_int (2 ^ Suc k)" by (simp only: of_int_le_iff)
  then have "rat_of_int (n + 1) \<le> 2 ^ Suc k" by simp
  moreover have "\<bar>x\<bar> < of_int (n + 1)" unfolding n_def by linarith
  ultimately have "\<bar>x\<bar> < 2 ^ Suc k" by (rule less_le_trans [rotated])
  moreover have "pow2 (exponent x + 1) = 2 ^ Suc k"
    unfolding e using pow2_nat [of "Suc k"] by (simp add: add.commute)
  ultimately have "\<bar>x\<bar> < pow2 (exponent x + 1)" by simp
  with l show ?thesis ..
next
  case False
  define y where "y = 1 / \<bar>x\<bar>"
  have x0: "0 < \<bar>x\<bar>" using assms by simp
  have y1: "1 < y" using False x0 by (simp add: y_def)
  have xy: "\<bar>x\<bar> = 1 / y" by (simp add: y_def)
  define m where "m = \<lceil>y\<rceil> - 1"
  have "2 \<le> \<lceil>y\<rceil>" using y1 by linarith
  then have m0: "0 < m" by (simp add: m_def)
  have b1: "1 \<le> bitlen m" using m0 by (simp add: bitlen_alt_def)
  define k where "k = nat (bitlen m - 1)"
  have k: "bitlen m = int (Suc k)" "nat (bitlen m) = Suc k" using b1 by (simp_all add: k_def)
  from bitlen_bounds [OF m0] have lo: "2 ^ k \<le> m" and hi: "m < 2 ^ Suc k"
    unfolding k_def [symmetric] k(2) by blast+
  have e: "exponent x = - int (Suc k)"
    using False unfolding exponent_def y_def [symmetric] m_def [symmetric] k(1) by simp
  have "m + 1 \<le> 2 ^ Suc k" using hi by simp
  then have "rat_of_int (m + 1) \<le> of_int (2 ^ Suc k)" by (simp only: of_int_le_iff)
  then have "rat_of_int (m + 1) \<le> 2 ^ Suc k" by simp
  moreover have "y \<le> of_int (m + 1)" unfolding m_def by simp
  ultimately have yle: "y \<le> 2 ^ Suc k" by (rule order_trans [rotated])
  have "rat_of_int (2 ^ k) \<le> of_int m" using lo by (simp only: of_int_le_iff)
  then have "(2::rat) ^ k \<le> of_int m" by simp
  moreover have "of_int m < y" unfolding m_def by linarith
  ultimately have ygt: "2 ^ k < y" by (rule le_less_trans)
  have "1 / 2 ^ Suc k \<le> 1 / y"
    using yle y1 by (intro divide_left_mono) simp_all
  then have l: "pow2 (exponent x) \<le> \<bar>x\<bar>"
    unfolding e xy pow2_neg_nat .
  have "1 / y < 1 / 2 ^ k"
    using ygt y1 by (intro divide_strict_left_mono) simp_all
  moreover have "exponent x + 1 = - int k" by (simp add: e)
  ultimately have "\<bar>x\<bar> < pow2 (exponent x + 1)"
    by (simp only: xy pow2_neg_nat)
  with l show ?thesis ..
qed


lemma pow2_powi: "pow2 e = 2 powi e"
  by (simp add: pow2_def power_int_def power_inverse [symmetric] inverse_eq_divide
      power_one_over)

lemma pow2_add: "pow2 (a + b) = pow2 a * pow2 b"
  by (simp add: pow2_powi power_int_add)

lemma pow2_mono: "a \<le> b \<Longrightarrow> pow2 a \<le> pow2 b"
  by (simp add: pow2_powi power_int_increasing)

lemma pow2_strict_mono: "a < b \<Longrightarrow> pow2 a < pow2 b"
  by (simp add: pow2_powi power_int_strict_increasing)

lemma exponent_le:
  assumes "x \<noteq> 0" and "\<bar>x\<bar> < pow2 b"
  shows "exponent x < b"
proof (rule ccontr)
  assume "\<not> exponent x < b"
  then have "pow2 b \<le> pow2 (exponent x)" by (intro pow2_mono) simp
  also have "\<dots> \<le> \<bar>x\<bar>" using exponent_bounds [OF assms(1)] ..
  finally show False using assms(2) by simp
qed

lemma exponent_ge:
  assumes "x \<noteq> 0" and "pow2 a \<le> \<bar>x\<bar>"
  shows "a \<le> exponent x"
proof (rule ccontr)
  assume "\<not> a \<le> exponent x"
  then have "pow2 (exponent x + 1) \<le> pow2 a" by (intro pow2_mono) simp
  moreover have "\<bar>x\<bar> < pow2 (exponent x + 1)" using exponent_bounds [OF assms(1)] ..
  ultimately show False using assms(2) by simp
qed

lemma round_double_fine_grid:
  assumes "x \<noteq> 0" and "- 1022 \<le> exponent x" and "exponent x \<le> 52"
  shows "round_double x =
     of_int (round_half_even (x * 2 ^ nat (52 - exponent x))) / 2 ^ nat (52 - exponent x)"
proof -
  define j where "j = nat (52 - exponent x)"
  have "exponent x - 52 = - int j" using assms(3) by (simp add: j_def)
  then have u: "pow2 (max (exponent x) (- 1022) - 52) = 1 / 2 ^ j"
    using assms(2) pow2_neg_nat [of j] by (simp add: max_def)
  show ?thesis
    using assms(1) by (simp add: round_double_def Let_def u j_def [symmetric])
qed

lemma round_double_of_int_exact:
  assumes "\<bar>n\<bar> < 2 ^ 53"
  shows "round_double (of_int n) = of_int n"
proof (cases "n = 0")
  case True
  then show ?thesis by (simp add: round_double_def)
next
  case False
  define x where "x = rat_of_int n"
  have x0: "x \<noteq> 0" using False by (simp add: x_def)
  have ax: "\<bar>x\<bar> = rat_of_int \<bar>n\<bar>" by (simp add: x_def)
  have "rat_of_int \<bar>n\<bar> < rat_of_int (2 ^ 53)" using assms by (simp only: of_int_less_iff)
  then have "\<bar>x\<bar> < pow2 53" by (simp add: ax pow2_def)
  then have hi: "exponent x \<le> 52" using exponent_le [OF x0, of 53] by simp
  have "1 \<le> \<bar>n\<bar>" using False by simp
  then have "rat_of_int 1 \<le> rat_of_int \<bar>n\<bar>" by (simp only: of_int_le_iff)
  then have "pow2 0 \<le> \<bar>x\<bar>" by (simp add: ax pow2_def)
  then have lo: "0 \<le> exponent x" by (rule exponent_ge [OF x0])
  define j where "j = nat (52 - exponent x)"
  have "x * 2 ^ j = rat_of_int (n * 2 ^ j)" by (simp add: x_def)
  then have "round_half_even (x * 2 ^ j) = n * 2 ^ j"
    by (simp only: round_half_even_of_int)
  then have "round_double x = rat_of_int (n * 2 ^ j) / 2 ^ j"
    using round_double_fine_grid [OF x0 _ hi] lo by (simp add: j_def)
  then show ?thesis by (simp add: x_def)
qed

lemma float_of_int_exact:
  assumes "\<bar>n\<bar> < 2 ^ 53"
  shows "float_of_int n = Inr (of_int n)"
proof -
  have "\<bar>n\<bar> < 2 ^ 1024" using assms by simp
  then have "rat_of_int \<bar>n\<bar> < rat_of_int (2 ^ 1024)" by (simp only: of_int_less_iff)
  then have "\<not> 2 ^ 1024 \<le> \<bar>rat_of_int n\<bar>" by simp
  then show ?thesis
    by (simp add: float_of_int_def round_double_of_int_exact [OF assms])
qed


lemma round_half_even_le_int:
  assumes "x \<le> of_int N"
  shows "round_half_even x \<le> N"
proof -
  have "rat_of_int (round_half_even x) \<le> x + 1 / 2" using round_half_even_close [of x] ..
  with assms have "rat_of_int (round_half_even x) < rat_of_int (N + 1)" by simp
  then have "round_half_even x < N + 1" by (simp only: of_int_less_iff)
  then show ?thesis by simp
qed

lemma round_half_even_gt_int:
  assumes "of_int N + 1 / 2 < x"
  shows "N < round_half_even x"
proof -
  have "x - 1 / 2 \<le> rat_of_int (round_half_even x)" using round_half_even_close [of x] ..
  with assms have "rat_of_int N < rat_of_int (round_half_even x)" by simp
  then show ?thesis by (simp only: of_int_less_iff)
qed

lemma ceiling_round_double_quotient:
  assumes d: "0 < d" "d < 2 ^ 53" and s: "0 < s" "s < 2 ^ 53"
  shows "\<lceil>round_double (of_int d / of_int s)\<rceil> = \<lceil>rat_of_int d / of_int s\<rceil>"
proof -
  define q where "q = rat_of_int d / of_int s"
  define k where "k = \<lceil>q\<rceil>"
  have s0: "0 < rat_of_int s" and d0: "0 < rat_of_int d" using d s by simp_all
  have q0: "0 < q" using s0 d0 by (simp add: q_def)
  then have qn: "q \<noteq> 0" and aq: "\<bar>q\<bar> = q" by simp_all
  have sq: "rat_of_int s * q = rat_of_int d" using s0 by (simp add: q_def)
  have s1: "1 \<le> rat_of_int s" using s(1) by simp
  have "q \<le> rat_of_int d" using s1 d0 by (simp add: q_def divide_le_eq mult_le_cancel_left1)
  also have "rat_of_int d < rat_of_int (2 ^ 53)" using d(2) by (simp only: of_int_less_iff)
  finally have "\<bar>q\<bar> < pow2 53" by (simp add: aq pow2_def)
  then have hi: "exponent q \<le> 52" using exponent_le [OF qn, of 53] by simp
  have "rat_of_int s < rat_of_int (2 ^ 53)" using s(2) by (simp only: of_int_less_iff)
  then have "rat_of_int s < 2 ^ 53" by simp
  then have "1 / 2 ^ 53 < 1 / rat_of_int s"
    using s0 by (intro divide_strict_left_mono) simp_all
  also have "1 / rat_of_int s \<le> q"
    using s0 d(1) by (simp add: q_def divide_le_cancel)
  finally have "pow2 (- 53) \<le> \<bar>q\<bar>" by (simp add: aq pow2_def)
  then have lo: "- 53 \<le> exponent q" by (rule exponent_ge [OF qn])
  define j where "j = nat (52 - exponent q)"
  define m where "m = round_half_even (q * 2 ^ j)"
  have r: "round_double q = of_int m / 2 ^ j"
    using round_double_fine_grid [OF qn _ hi] lo by (simp add: j_def m_def)
  have upper: "rat_of_int m / 2 ^ j \<le> of_int k"
  proof -
    have "q \<le> of_int k" by (simp add: k_def)
    then have "q * 2 ^ j \<le> rat_of_int (k * 2 ^ j)" by simp
    then have "m \<le> k * 2 ^ j" unfolding m_def by (rule round_half_even_le_int)
    then have "rat_of_int m \<le> rat_of_int (k * 2 ^ j)" by (simp only: of_int_le_iff)
    then show ?thesis by (simp add: divide_le_eq)
  qed
  have lower: "of_int k - 1 < rat_of_int m / 2 ^ j"
  proof (cases "q = of_int k")
    case True
    then have "q * 2 ^ j = rat_of_int (k * 2 ^ j)" by simp
    then have "m = k * 2 ^ j" unfolding m_def by (simp only: round_half_even_of_int)
    then show ?thesis by simp
  next
    case False
    have "of_int k - 1 < q" unfolding k_def by linarith
    then have "rat_of_int s * (of_int k - 1) < rat_of_int s * q"
      using s0 by (simp only: mult_less_cancel_left_pos)
    then have "rat_of_int (s * (k - 1)) < rat_of_int d" by (simp add: sq)
    then have "s * (k - 1) < d" by (simp only: of_int_less_iff)
    then have "s * (k - 1) + 1 \<le> d" by simp
    then have "rat_of_int (s * (k - 1) + 1) \<le> rat_of_int d" by (simp only: of_int_le_iff)
    then have "rat_of_int s * (of_int k - 1) + 1 \<le> rat_of_int s * q" by (simp add: sq)
    then have gap: "(of_int k - 1) + 1 / rat_of_int s \<le> q"
      using s0 by (simp add: field_simps)
    have "pow2 (exponent q) \<le> q" using exponent_bounds [OF qn] aq by simp
    then have "rat_of_int s * pow2 (exponent q) \<le> rat_of_int s * q"
      using s0 by (simp only: mult_le_cancel_left_pos)
    also have "\<dots> < 2 ^ 53" using d(2) sq
      by (metis of_int_less_iff of_int_numeral of_int_power)
    finally have "rat_of_int s * pow2 (exponent q) < pow2 53" by (simp add: pow2_def)
    moreover have "pow2 53 = pow2 (exponent q) * pow2 (int j + 1)"
      using hi by (simp add: pow2_add [symmetric] j_def)
    ultimately have "rat_of_int s * pow2 (exponent q) < pow2 (int j + 1) * pow2 (exponent q)"
      by (simp add: mult.commute)
    then have "rat_of_int s < pow2 (int j + 1)"
      using pow2_pos [of "exponent q"] by (simp only: mult_less_cancel_right_pos)
    then have "rat_of_int s < 2 * 2 ^ j"
      using pow2_nat [of "Suc j"] by (simp add: add.commute)
    then have half: "1 / 2 < 2 ^ j / rat_of_int s"
      using s0 by (simp add: field_simps)
    have "((of_int k - 1) + 1 / rat_of_int s) * 2 ^ j \<le> q * 2 ^ j"
      using gap by (simp only: mult_le_cancel_right_pos zero_less_power zero_less_numeral)
    moreover have "((of_int k - 1) + 1 / rat_of_int s) * 2 ^ j =
        rat_of_int ((k - 1) * 2 ^ j) + 2 ^ j / rat_of_int s"
      by (simp add: algebra_simps)
    ultimately have "rat_of_int ((k - 1) * 2 ^ j) + 2 ^ j / rat_of_int s \<le> q * 2 ^ j"
      by (simp only:)
    with half have "rat_of_int ((k - 1) * 2 ^ j) + 1 / 2 < q * 2 ^ j" by linarith
    then have "(k - 1) * 2 ^ j < m" unfolding m_def by (rule round_half_even_gt_int)
    then have "rat_of_int ((k - 1) * 2 ^ j) < rat_of_int m" by (simp only: of_int_less_iff)
    then show ?thesis by (simp add: less_divide_eq)
  qed
  have "\<lceil>rat_of_int m / 2 ^ j\<rceil> = k"
    using lower upper by (intro ceiling_unique) simp_all
  then show ?thesis by (simp add: r q_def [symmetric] k_def)
qed


lemma ceil_float_div_exact:
  assumes d: "\<bar>d\<bar> < 2 ^ 53" and s: "\<bar>s\<bar> < 2 ^ 53"
    and dir: "0 < d \<and> 0 < s \<or> d \<le> 0 \<and> s < 0"
  shows "ceil_float_div d s = Inr (of_int \<lceil>rat_of_int d / of_int s\<rceil>)"
proof -
  have s0: "rat_of_int s \<noteq> 0" using dir by auto
  have unfold: "ceil_float_div d s =
      Inr (of_int \<lceil>round_double (rat_of_int d / of_int s)\<rceil>)"
    using s0
    by (simp add: ceil_float_div_def float_div_def math_ceil_def
        float_of_int_exact [OF d] float_of_int_exact [OF s])
  have "\<lceil>round_double (rat_of_int d / of_int s)\<rceil> = \<lceil>rat_of_int d / of_int s\<rceil>"
  proof (cases "d = 0")
    case True
    then show ?thesis by (simp add: round_double_def)
  next
    case False
    show ?thesis
    proof (cases "0 < d")
      case True
      with dir have "0 < s" by simp
      with True d s show ?thesis by (intro ceiling_round_double_quotient) simp_all
    next
      case neg: False
      with False dir have nd: "0 < - d" and ns: "0 < - s" by auto
      have "\<lceil>round_double (rat_of_int (- d) / of_int (- s))\<rceil> =
          \<lceil>rat_of_int (- d) / of_int (- s)\<rceil>"
        using nd ns d s by (intro ceiling_round_double_quotient) simp_all
      then show ?thesis by simp
    qed
  qed
  then show ?thesis by (simp add: unfold)
qed

lemma py_int_of_int: "py_int (of_int k) = k"
  by (simp add: py_int_def)

lemma range3_length_exact:
  assumes dir: "low < high \<and> 0 < step \<or> high \<le> low \<and> step < 0"
    and d: "\<bar>high - low\<bar> < 2 ^ 53" and s: "\<bar>step\<bar> < 2 ^ 53"
  shows "range3_length low high step =
     Inr (Some \<lceil>rat_of_int (high - low) / of_int step\<rceil>)"
proof -
  define k where "k = \<lceil>rat_of_int (high - low) / of_int step\<rceil>"
  have step0: "step \<noteq> 0" using dir by auto
  have dir': "0 < high - low \<and> 0 < step \<or> high - low \<le> 0 \<and> step < 0"
    using dir by auto
  have c: "ceil_float_div (high - low) step = Inr (of_int k)"
    unfolding k_def using d s dir' by (rule ceil_float_div_exact)
  have est: "range3_estimate low high step = Inr (of_int k)"
    using dir c by (auto simp: range3_estimate_def)
  have "0 \<le> rat_of_int k"
    using dir' by (intro ceil_float_div_nonneg [OF c]) auto
  then have "\<not> rat_of_int k < 0" by (simp only: not_less)
  then have "range3_length low high step = Inr (Some k)"
    using step0
    by (simp add: range3_length_def est py_round_of_int py_int_of_int Let_def)
  then show ?thesis unfolding k_def .
qed

lemma getIterationLength_range3_exact:
  assumes "getIntegerValue low cc = Some l" and "getIntegerValue high cc = Some h"
    and "getIntegerValue step cc = Some s"
    and "l < h \<and> 0 < s \<or> h \<le> l \<and> s < 0"
    and "\<bar>h - l\<bar> < 2 ^ 53" and "\<bar>s\<bar> < 2 ^ 53"
  shows "getIterationLength (BuiltinRange3 low high step) cc =
     Inr (Some \<lceil>rat_of_int (h - l) / of_int s\<rceil>)"
  using assms(1-3) range3_length_exact [OF assms(4-6)] by simp


lemma round_double_close:
  "\<bar>round_double x - x\<bar> \<le> pow2 (max (exponent x) (- 1022) - 52) / 2"
proof (cases "x = 0")
  case True
  then show ?thesis using pow2_pos by (simp add: round_double_def less_imp_le)
next
  case False
  define u where "u = pow2 (max (exponent x) (- 1022) - 52)"
  define m where "m = rat_of_int (round_half_even (x / u))"
  have u: "0 < u" unfolding u_def by (rule pow2_pos)
  have "\<bar>m - x / u\<bar> \<le> 1 / 2"
    using round_half_even_close [of "x / u"] unfolding m_def by linarith
  then have "\<bar>m - x / u\<bar> * u \<le> 1 / 2 * u"
    using u by (simp only: mult_le_cancel_right_pos)
  moreover have "\<bar>m - x / u\<bar> * u = \<bar>m * u - x\<bar>"
  proof -
    have "\<bar>m - x / u\<bar> * u = \<bar>m - x / u\<bar> * \<bar>u\<bar>" using u by simp
    also have "\<dots> = \<bar>(m - x / u) * u\<bar>" by (simp only: abs_mult)
    also have "(m - x / u) * u = m * u - x" using u by (simp add: algebra_simps)
    finally show ?thesis .
  qed
  ultimately have "\<bar>m * u - x\<bar> \<le> u / 2" by simp
  moreover have "round_double x = m * u"
    using False by (simp add: round_double_def Let_def u_def m_def)
  ultimately show ?thesis by (simp add: u_def)
qed

subsection \<open>Iteration values of the one-operand node\<close>

lemma range1_value:
  assumes "getIntegerValue low cc = Some l"
  shows "getIterationValue (BuiltinRange1 low) i cc =
     (if i > max 0 l then Inr None
      else Inr (Some (makeConstantReplacementNode i (BuiltinRange1 low))))"
  using assms by simp

lemma getIterationValue_unknown_low_high:
  "getIntegerValue low cc = None \<Longrightarrow>
     getIterationValue (BuiltinRange1 low) i cc = Inr None \<and>
     getIterationValue (BuiltinRange2 low high) i cc = Inr None \<and>
     getIterationValue (BuiltinRange3 low high step) i cc = Inr None"
  "getIntegerValue high cc = None \<Longrightarrow>
     getIterationValue (BuiltinRange2 low high) i cc = Inr None \<and>
     getIterationValue (BuiltinRange3 low high step) i cc = Inr None"
  by (simp_all split: option.splits)

text \<open>
  Claim C1 has \<^verbatim>\<open>getIterationValue\<close> of the one-operand node return the index below
  \<open>max(0, low)\<close> and \<^verbatim>\<open>None\<close> from \<open>max(0, low)\<close> on. The method compares with
  \<^verbatim>\<open>element_index > length\<close>: for the node \<^verbatim>\<open>range(5)\<close> the index 5, which is the length,
  is answered with the constant 5 and not with \<^verbatim>\<open>None\<close>.
\<close>

theorem range1_value_at_length:
  "getIterationValue (BuiltinRange1 (known_operand 5)) 5 () =
     Inr (Some (makeConstantReplacementNode 5 (BuiltinRange1 (known_operand 5))))"
  by (simp add: known_operand_def)

subsection \<open>Iteration values of the three-operand node\<close>

text \<open>
  Claim C2 has the node \<^verbatim>\<open>range(10, 0, -2)\<close> report the length 5 and the values 10, 8, 6,
  4, 2 at the indices 0 to 4. The length is 5, but \<^verbatim>\<open>getIterationValue\<close> tests
  \<^verbatim>\<open>result >= high\<close> whatever the sign of the step, so each of the five indices is
  answered with \<^verbatim>\<open>None\<close>.
\<close>

theorem range3_descending_values:
  "getIterationLength
     (BuiltinRange3 (known_operand 10) (known_operand 0) (known_operand (- 2))) () =
     Inr (Some 5) \<and>
   map (\<lambda>i. getIterationValue
               (BuiltinRange3 (known_operand 10) (known_operand 0) (known_operand (- 2)))
               i ())
     [0, 1, 2, 3, 4] = [Inr None, Inr None, Inr None, Inr None, Inr None]"
proof
  show "getIterationLength
     (BuiltinRange3 (known_operand 10) (known_operand 0) (known_operand (- 2))) () =
     Inr (Some 5)"
    by code_simp
next
  show "map (\<lambda>i. getIterationValue
               (BuiltinRange3 (known_operand 10) (known_operand 0) (known_operand (- 2)))
               i ())
     [0, 1, 2, 3, 4] = [Inr None, Inr None, Inr None, Inr None, Inr None]"
    by (simp add: known_operand_def)
qed

text \<open>
  Claim C3 has a three-operand node with the step 0 answer \<^verbatim>\<open>None\<close> for the length and
  for the value at every index. \<^verbatim>\<open>getIterationLength\<close> gives up on the step 0, but
  \<^verbatim>\<open>getIterationValue\<close> has no such test: for \<^verbatim>\<open>range(0, 10, 0)\<close> the length is \<^verbatim>\<open>None\<close>
  and the value at index 7 is the constant 0.
\<close>

theorem range3_zero_step_value:
  "getIterationLength
     (BuiltinRange3 (known_operand 0) (known_operand 10) (known_operand 0)) () = Inr None \<and>
   getIterationValue
     (BuiltinRange3 (known_operand 0) (known_operand 10) (known_operand 0)) 7 () =
     Inr (Some (makeConstantReplacementNode 0
       (BuiltinRange3 (known_operand 0) (known_operand 10) (known_operand 0))))"
  by (simp add: known_operand_def range3_length_def)

text \<open>
  Claim C4 has \<^verbatim>\<open>getIterationValue\<close> return \<^verbatim>\<open>None\<close> and never raise when the integer
  value of some operand is unknown. In the three-operand class the step is used without
  a test for \<^verbatim>\<open>None\<close>: with known low and high and an unknown step the method raises
  TypeError.
\<close>

theorem range3_unknown_step_raises:
  "getIterationValue
     (BuiltinRange3 (known_operand 0) (known_operand 10) unknown_operand) 0 () =
     Inl TypeError"
  by (simp add: known_operand_def unknown_operand_def)

subsection \<open>Iteration length of the three-operand node\<close>

text \<open>
  Claim C5 has the length of a three-operand node be the exact ceiling of
  \<open>(high - low) / step\<close> for operands of every magnitude. The method divides floats:
  for \<^verbatim>\<open>range(0, 2**53 + 1, 1)\<close> the conversion of \<open>2^53 + 1\<close> to a float rounds to
  \<open>2^53\<close>, and the method returns 9007199254740992 where the exact ceiling is
  9007199254740993.
\<close>

theorem range3_length_float_rounding:
  "getIterationLength
     (BuiltinRange3 (known_operand 0) (known_operand 9007199254740993) (known_operand 1)) () =
     Inr (Some 9007199254740992) \<and>
   \<lceil>rat_of_int (9007199254740993 - 0) / rat_of_int 1\<rceil> = 9007199254740993"
proof
  show "getIterationLength
     (BuiltinRange3 (known_operand 0) (known_operand 9007199254740993) (known_operand 1)) () =
     Inr (Some 9007199254740992)"
    by code_simp
next
  show "\<lceil>rat_of_int (9007199254740993 - 0) / rat_of_int 1\<rceil> = 9007199254740993"
    by simp
qed

text \<open>
  Claim C6: for each of the three classes and all operand facts, a length that
  \<^verbatim>\<open>getIterationLength\<close> returns is not negative and the assertion
  \<^verbatim>\<open>not estimate < 0\<close> never fails; for a three-operand node whose step points away
  from high (low < high with a negative step, or low >= high with a positive step) the
  length is exactly 0.
\<close>

theorem getIterationLength_nonneg:
  "(getIterationLength self cc = Inr (Some n) \<longrightarrow> 0 \<le> n) \<and>
   getIterationLength self cc \<noteq> Inl AssertionError \<and>
   (getIntegerValue low cc = Some l \<and> getIntegerValue high cc = Some h \<and>
    getIntegerValue step cc = Some s \<and> (l < h \<and> s < 0 \<or> l \<ge> h \<and> s > 0) \<longrightarrow>
      getIterationLength (BuiltinRange3 low high step) cc = Inr (Some 0))"
proof (intro conjI impI)
  assume "getIterationLength self cc = Inr (Some n)"
  then show "0 \<le> n"
    by (cases self) (auto split: option.splits dest: range3_length_nonneg)
next
  show "getIterationLength self cc \<noteq> Inl AssertionError"
    by (cases self) (simp_all add: range3_length_no_assertion split: option.splits)
next
  assume "getIntegerValue low cc = Some l \<and> getIntegerValue high cc = Some h \<and>
    getIntegerValue step cc = Some s \<and> (l < h \<and> s < 0 \<or> l \<ge> h \<and> s > 0)"
  then show "getIterationLength (BuiltinRange3 low high step) cc = Inr (Some 0)"
    using range3_length_mismatch [of l h s] by simp
qed

text \<open>The same at \<^verbatim>\<open>range(0, 10, 3)\<close>, of length 4, and at \<^verbatim>\<open>range(0, 10, -1)\<close>.\<close>

theorem getIterationLength_nonneg_witness:
  "getIterationLength
     (BuiltinRange3 (known_operand 0) (known_operand 10) (known_operand 3)) () =
     Inr (Some 4) \<and> (0::int) \<le> 4 \<and>
   getIterationLength
     (BuiltinRange3 (known_operand 0) (known_operand 10) (known_operand (- 1))) () =
     Inr (Some 0)"
proof -
  have len: "getIterationLength
     (BuiltinRange3 (known_operand 0) (known_operand 10) (known_operand 3)) () =
     Inr (Some 4)"
    by code_simp
  have facts: "getIntegerValue (known_operand 0) () = Some 0 \<and>
    getIntegerValue (known_operand 10) () = Some 10 \<and>
    getIntegerValue (known_operand (- 1)) () = Some (- 1) \<and>
    ((0::int) < 10 \<and> (- 1::int) < 0 \<or> (0::int) \<ge> 10 \<and> (- 1::int) > 0)"
    by (simp add: known_operand_def)
  from getIterationLength_nonneg
    [where self = "BuiltinRange3 (known_operand 0) (known_operand 10) (known_operand 3)"
       and cc = "()" and n = 4 and low = "known_operand 0" and l = 0
       and high = "known_operand 10" and h = 10 and step = "known_operand (- 1)"
       and s = "- 1"]
    len facts
  show ?thesis by blast
qed

subsection \<open>Side effects\<close>

lemma mayHaveSideEffects_loop_iff:
  "mayHaveSideEffects_loop children cc \<longleftrightarrow>
     (\<exists>child \<in> set children.
        expression_mayHaveSideEffects child cc \<or> getIntegerValue child cc = None)"
  by (induction children) auto

text \<open>
  Claim C7: \<^verbatim>\<open>mayHaveSideEffects\<close> of a node with operands returns \<^verbatim>\<open>False\<close> exactly when
  every operand is free of side effects and has a known integer value; the node without
  operands always returns \<^verbatim>\<open>False\<close>.
\<close>

theorem mayHaveSideEffects_exactly:
  "(mayHaveSideEffects self cc = False \<longleftrightarrow>
      (\<forall>child \<in> set (getVisitableNodes self).
         \<not> expression_mayHaveSideEffects child cc \<and>
         (\<exists>v. getIntegerValue child cc = Some v))) \<and>
   mayHaveSideEffects0 cc = False"
  by (auto simp: mayHaveSideEffects_def mayHaveSideEffects_loop_iff mayHaveSideEffects0_def)

text \<open>The same at \<^verbatim>\<open>range(3, 10)\<close> and at a two-operand node with an unknown high.\<close>

theorem mayHaveSideEffects_exactly_witness:
  "mayHaveSideEffects (BuiltinRange2 (known_operand 3) (known_operand 10)) () = False \<and>
   mayHaveSideEffects (BuiltinRange2 (known_operand 3) unknown_operand) () = True"
proof -
  have a: "\<forall>child \<in> set (getVisitableNodes (BuiltinRange2 (known_operand 3) (known_operand 10))).
         \<not> expression_mayHaveSideEffects child () \<and>
         (\<exists>v. getIntegerValue child () = Some v)"
    by (simp add: known_operand_def)
  have b: "\<not> (\<forall>child \<in> set (getVisitableNodes (BuiltinRange2 (known_operand 3) unknown_operand)).
         \<not> expression_mayHaveSideEffects child () \<and>
         (\<exists>v. getIntegerValue child () = Some v))"
    by (simp add: unknown_operand_def)
  from a b
    mayHaveSideEffects_exactly [of "BuiltinRange2 (known_operand 3) (known_operand 10)" "()"]
    mayHaveSideEffects_exactly [of "BuiltinRange2 (known_operand 3) unknown_operand" "()"]
  show ?thesis by blast
qed

subsection \<open>Compile-time folding\<close>

lemma computeNode_folds_constant_operand:
  "computeNode python27 (BuiltinRange1 (known_operand 5)) () =
     (ReplacementNode (), Some ''new_constant'', Some ''Builtin call to range precomputed.'')"
  by (simp add: python27_def known_operand_def isCompileTimeComputable_def)

text \<open>
  Claim C8: when the Python version is 3 or later, or some operand is not a compile-time
  constant, \<^verbatim>\<open>computeNode\<close> returns the node itself with no change tag and no
  description, and a second call on the returned node gives the same answer.
\<close>

theorem computeNode_unfoldable:
  assumes "300 \<le> python_version env \<or>
           (\<exists>operand \<in> set (getVisitableNodes self). \<not> isCompileTimeConstant operand)"
  shows "\<exists>r. computeNode env self cc = (RangeNode r, None, None) \<and> r = self \<and>
             computeNode env r cc = (RangeNode r, None, None)"
proof -
  have "computeNode env self cc = (RangeNode self, None, None)"
    using assms
    by (cases self)
      (auto simp: computeBuiltinSpec_def isCompileTimeComputable_def Let_def)
  then show ?thesis by simp
qed

text \<open>The same at a two-operand node with an unknown high, under Python 2.7.\<close>

theorem computeNode_unfoldable_witness:
  "isCompileTimeConstant (unknown_operand :: unit expression) = False \<and>
   computeNode python27 (BuiltinRange2 (known_operand 3) unknown_operand) () =
     (RangeNode (BuiltinRange2 (known_operand 3) unknown_operand), None, None)"
proof -
  have h: "300 \<le> python_version (python27 :: (unit, unit, unit) environment) \<or>
     (\<exists>operand \<in> set (getVisitableNodes (BuiltinRange2 (known_operand 3) unknown_operand)).
        \<not> isCompileTimeConstant (operand :: unit expression))"
    by (simp add: unknown_operand_def)
  have u: "isCompileTimeConstant (unknown_operand :: unit expression) = False"
    by (simp add: unknown_operand_def)
  from computeNode_unfoldable [OF h, of "()"] u show ?thesis by simp
qed

subsection \<open>Predictability and iterability\<close>

text \<open>
  Claim C9: for each of the three classes, \<^verbatim>\<open>canPredictIterationValues\<close> returns \<^verbatim>\<open>True\<close>
  if and only if \<^verbatim>\<open>getIterationLength\<close> returns a length, and \<^verbatim>\<open>False\<close> if and only if
  it returns \<^verbatim>\<open>None\<close>.
\<close>

theorem canPredictIterationValues_iff:
  "(canPredictIterationValues self cc = Inr True \<longleftrightarrow>
      (\<exists>n. getIterationLength self cc = Inr (Some n))) \<and>
   (canPredictIterationValues self cc = Inr False \<longleftrightarrow>
      getIterationLength self cc = Inr None)"
  by (auto simp: canPredictIterationValues_def split: sum.splits)

lemma isKnownToBeIterable_count: "isKnownToBeIterable self (Some count) = Inl TypeError"
  by (simp add: isKnownToBeIterable_def)

text \<open>
  Claim C10: for each of the three classes, \<^verbatim>\<open>isKnownToBeIterable\<close> called with the
  count \<^verbatim>\<open>None\<close> returns \<^verbatim>\<open>True\<close>, whatever the operands are; the method takes no
  constraint collection.
\<close>

theorem isKnownToBeIterable_None:
  "isKnownToBeIterable self None = Inr True"
  by (simp add: isKnownToBeIterable_def)

end
